theory Spec2Isabelle
  imports Main "HOL-Library.Multiset" "HOL-Library.Product_Lexorder"
begin

section \<open>Text: whitespace, trimming and line splitting\<close>

text \<open>
  The program is \<^verbatim>\<open>main.py\<close>, a checklist of email addresses kept in one
  SQLite table and shown in a Qt table. Python strings are sequences of code points; the
  model uses \<^typ>\<open>string\<close>, so it covers texts whose code points are below 256, one
  \<^typ>\<open>char\<close> per code point.

  \<^verbatim>\<open>str.strip()\<close>, \<^verbatim>\<open>str.isspace()\<close> and the regular expression class
  \<^verbatim>\<open>\s\<close> of a \<^verbatim>\<open>str\<close> pattern agree on which code points are whitespace. Below
  256 these are 0x09 to 0x0D, 0x1C to 0x1F, 0x20, 0x85 and 0xA0.
\<close>

definition is_space :: "char \<Rightarrow> bool" where
  "is_space c \<longleftrightarrow> c \<in> set [CHR 0x09, CHR 0x0A, CHR 0x0B, CHR 0x0C, CHR 0x0D,
     CHR 0x1C, CHR 0x1D, CHR 0x1E, CHR 0x1F, CHR 0x20, CHR 0x85, CHR 0xA0]"

text \<open>\<^verbatim>\<open>s.strip()\<close>: leading and trailing whitespace removed.\<close>

definition strip :: "string \<Rightarrow> string" where
  "strip s = rev (dropWhile is_space (rev (dropWhile is_space s)))"

text \<open>
  \<^verbatim>\<open>str.splitlines()\<close> breaks at \<^verbatim>\<open>\n\<close>, \<^verbatim>\<open>\r\<close>, \<^verbatim>\<open>\r\n\<close> (one break),
  \<^verbatim>\<open>\v\<close>, \<^verbatim>\<open>\f\<close>, 0x1C, 0x1D, 0x1E and 0x85 (and two code points above 255).
  The breaks are not kept, and a text that ends with a break has no empty last line.
\<close>

definition is_linebreak :: "char \<Rightarrow> bool" where
  "is_linebreak c \<longleftrightarrow> c \<in> set [CHR 0x0A, CHR 0x0B, CHR 0x0C, CHR 0x0D,
     CHR 0x1C, CHR 0x1D, CHR 0x1E, CHR 0x85]"

fun splitlines_from :: "string \<Rightarrow> string \<Rightarrow> string list" where
  "splitlines_from cur [] = (if cur = [] then [] else [rev cur])"
| "splitlines_from cur (c # cs) =
     (if c = CHR 0x0D then
        (case cs of
           d # ds \<Rightarrow> if d = CHR 0x0A then rev cur # splitlines_from [] ds
                     else rev cur # splitlines_from [] cs
         | [] \<Rightarrow> rev cur # splitlines_from [] cs)
      else if is_linebreak c then rev cur # splitlines_from [] cs
      else splitlines_from (c # cur) cs)"

definition splitlines :: "string \<Rightarrow> string list" where
  "splitlines s = splitlines_from [] s"

section \<open>The regular expression of the seed parser\<close>

text \<open>
  \<^verbatim>\<open>parse_seed\<close> compiles
  \<^verbatim>\<open>^\* \[(?P<state>[xo\- ])\]\s+(?P<email>\S+)(?:\s+\((?P<number>[^)]+)\))?$\<close>
  and applies \<^verbatim>\<open>pattern.match\<close> to each trimmed line. The constructs it uses are
  modelled by a backtracking matcher: a matcher maps a position to the list of positions
  it can end at, in the order in which Python's engine tries them (greedy repetition and
  greedy option first), and \<^verbatim>\<open>match\<close> returns the first one.
\<close>

datatype cls = Space | NonSpace | OneOf string | NoneOf string

fun in_cls :: "cls \<Rightarrow> char \<Rightarrow> bool" where
  "in_cls Space c = is_space c"
| "in_cls NonSpace c = (\<not> is_space c)"
| "in_cls (OneOf cs) c = (c \<in> set cs)"
| "in_cls (NoneOf cs) c = (c \<notin> set cs)"

datatype rx =
    Bol
  | Eol
  | Lit char
  | Cls cls
  | Plus cls
  | Seq rx rx
  | Opt rx
  | Group string rx

text \<open>
  A matching state: the number of characters consumed, the rest of the subject, and the
  named groups set so far (latest first).
\<close>

type_synonym mstate = "nat \<times> string \<times> (string \<times> string) list"

text \<open>One or more characters of a class, longest first.\<close>

fun plus_match :: "cls \<Rightarrow> nat \<Rightarrow> string \<Rightarrow> (string \<times> string) list \<Rightarrow> mstate list" where
  "plus_match k p [] g = []"
| "plus_match k p (d # t) g =
     (if in_cls k d then plus_match k (Suc p) t g @ [(Suc p, t, g)] else [])"

text \<open>
  Without the MULTILINE flag, \<^verbatim>\<open>^\<close> matches at the start of the subject and
  \<^verbatim>\<open>$\<close> at its end or just before a newline that ends it.
\<close>

fun rx_match :: "rx \<Rightarrow> mstate \<Rightarrow> mstate list" where
  "rx_match Bol (p, s, g) = (if p = 0 then [(p, s, g)] else [])"
| "rx_match Eol (p, s, g) = (if s = [] \<or> s = [CHR 0x0A] then [(p, s, g)] else [])"
| "rx_match (Lit c) (p, s, g) =
     (case s of [] \<Rightarrow> [] | d # t \<Rightarrow> if d = c then [(Suc p, t, g)] else [])"
| "rx_match (Cls k) (p, s, g) =
     (case s of [] \<Rightarrow> [] | d # t \<Rightarrow> if in_cls k d then [(Suc p, t, g)] else [])"
| "rx_match (Plus k) (p, s, g) = plus_match k p s g"
| "rx_match (Seq a b) m = concat (map (rx_match b) (rx_match a m))"
| "rx_match (Opt a) m = rx_match a m @ [m]"
| "rx_match (Group n a) (p, s, g) =
     map (\<lambda>(p', s', g'). (p', s', (n, take (p' - p) s) # g')) (rx_match a (p, s, g))"

text \<open>\<^verbatim>\<open>pattern.match(line)\<close>: the groups of the first successful match, or None.\<close>

definition re_match :: "rx \<Rightarrow> string \<Rightarrow> (string \<times> string) list option" where
  "re_match r s = (case rx_match r (0, s, []) of [] \<Rightarrow> None | (p, t, g) # _ \<Rightarrow> Some g)"

text \<open>\<^verbatim>\<open>match.group(name)\<close>: None for a group that took no part in the match.\<close>

definition group :: "(string \<times> string) list \<Rightarrow> string \<Rightarrow> string option" where
  "group g n = map_of g n"

definition number_suffix :: rx where
  "number_suffix =
     Seq (Plus Space) (Seq (Lit CHR ''('')
       (Seq (Group ''number'' (Plus (NoneOf '')''))) (Lit CHR '')'')))"

definition pattern :: rx where
  "pattern =
     Seq Bol (Seq (Lit CHR ''*'') (Seq (Lit CHR '' '') (Seq (Lit CHR ''['')
       (Seq (Group ''state'' (Cls (OneOf ''xo- ''))) (Seq (Lit CHR '']'')
         (Seq (Plus Space) (Seq (Group ''email'' (Plus NonSpace))
           (Seq (Opt number_suffix) Eol))))))))"

section \<open>The seed parser\<close>

text \<open>
  \<^verbatim>\<open>SEED_STATUS.get(state, "unused")\<close>: the dictionary has the keys
  \<^verbatim>\<open>x\<close>, \<^verbatim>\<open>o\<close>, \<^verbatim>\<open>-\<close> and the space.
\<close>

definition SEED_STATUS :: "string \<rightharpoonup> string" where
  "SEED_STATUS = map_of [(''x'', ''used''), (''o'', ''using''), (''-'', ''leftover''),
     ('' '', ''unused'')]"

definition seed_status :: "string \<Rightarrow> string" where
  "seed_status state = (case SEED_STATUS state of None \<Rightarrow> ''unused'' | Some s \<Rightarrow> s)"

text \<open>
  The body of the loop of \<^verbatim>\<open>parse_seed\<close> for one line: None where the loop
  continues without a row. The groups \<^verbatim>\<open>state\<close> and \<^verbatim>\<open>email\<close> take part
  in every match; reading one that did not would raise, which the model keeps as the empty
  text (by lemma \<open>pattern_stripped\<close> this branch is never taken).
\<close>

definition or_empty :: "string option \<Rightarrow> string" where
  "or_empty v = (case v of None \<Rightarrow> [] | Some s \<Rightarrow> s)"

definition parse_line :: "string \<Rightarrow> (string \<times> string \<times> string) option" where
  "parse_line line0 =
     (let line = strip line0 in
      if line = [] then None
      else case re_match pattern line of
        None \<Rightarrow> None
      | Some m \<Rightarrow>
          (let state = or_empty (group m ''state'');
               email = strip (or_empty (group m ''email''));
               number = strip (or_empty (group m ''number''));
               status = seed_status state
           in Some (email, status, number)))"

fun parse_lines :: "string list \<Rightarrow> (string \<times> string \<times> string) list" where
  "parse_lines [] = []"
| "parse_lines (l # ls) =
     (case parse_line l of None \<Rightarrow> parse_lines ls | Some r \<Rightarrow> r # parse_lines ls)"

text \<open>\<^verbatim>\<open>parse_seed()\<close>, with the module constant \<^verbatim>\<open>SEED_TEXT\<close> as its argument.\<close>

definition parse_seed :: "string \<Rightarrow> (string \<times> string \<times> string) list" where
  "parse_seed SEED_TEXT = parse_lines (splitlines SEED_TEXT)"

text \<open>
  The number as the specification words it: the text between the last matching
  parentheses of the line, that is, between the last \<^verbatim>\<open>)\<close> of the line and the
  \<^verbatim>\<open>(\<close> that balances it. \<open>open_paren\<close> walks leftwards from that \<^verbatim>\<open>)\<close>
  over the reversed text before it, counting the nested pairs it crosses.
\<close>

fun open_paren :: "nat \<Rightarrow> string \<Rightarrow> string \<Rightarrow> string option" where
  "open_paren d [] acc = None"
| "open_paren d (c # cs) acc =
     (if c = CHR '')'' then open_paren (Suc d) cs (c # acc)
      else if c = CHR ''('' then
        (case d of 0 \<Rightarrow> Some acc | Suc d' \<Rightarrow> open_paren d' cs (c # acc))
      else open_paren d cs (c # acc))"

definition last_parenthesized :: "string \<Rightarrow> string option" where
  "last_parenthesized line =
     (case dropWhile (\<lambda>c. c \<noteq> CHR '')'') (rev line) of
        [] \<Rightarrow> None
      | c # before \<Rightarrow> open_paren 0 before [])"

section \<open>The store: the table \<^verbatim>\<open>emails\<close>\<close>

text \<open>
  \<^verbatim>\<open>_init_db\<close> creates the table with the columns \<^verbatim>\<open>id INTEGER PRIMARY KEY
  AUTOINCREMENT\<close>, \<^verbatim>\<open>email TEXT NOT NULL UNIQUE\<close>, \<^verbatim>\<open>status TEXT NOT NULL\<close>
  and \<^verbatim>\<open>number TEXT\<close>. A row is an \<open>entry\<close>; the column \<^verbatim>\<open>number\<close> may
  hold NULL, which is \<open>None\<close>, and the empty text is \<open>Some []\<close>. The store is the
  table as the connection sees it, together with the counter that AUTOINCREMENT keeps in
  \<^verbatim>\<open>sqlite_sequence\<close>.
\<close>

text \<open>
  The exceptions of \<^verbatim>\<open>sqlite3\<close> that the statements of the program raise on
  the data: \<^verbatim>\<open>IntegrityError\<close> for a violated constraint and
  \<^verbatim>\<open>OperationalError\<close> for SQLITE_FULL, which SQLite reports when no id is left.
\<close>

datatype error = IntegrityError | OperationalError

record entry =
  eid :: int
  email :: string
  status :: string
  number :: "string option"

record store =
  rows :: "entry list"
  seq :: int

definition STATUSES :: "string list" where
  "STATUSES = [''unused'', ''using'', ''used'', ''leftover'']"

definition STATUS_SORT :: "string list" where
  "STATUS_SORT = [''using'', ''unused'', ''leftover'', ''used'']"

text \<open>
  \<^verbatim>\<open>STATUS_SORT_CLAUSE\<close> is the SQL expression
  \<^verbatim>\<open>CASE status WHEN 'using' THEN 0 WHEN 'unused' THEN 1 WHEN 'leftover' THEN 2
  WHEN 'used' THEN 3 ELSE 4 END\<close>, built from \<^verbatim>\<open>enumerate(STATUS_SORT)\<close>.
\<close>

fun case_when :: "(nat \<times> string) list \<Rightarrow> nat \<Rightarrow> string \<Rightarrow> nat" where
  "case_when [] d x = d"
| "case_when ((i, v) # ws) d x = (if x = v then i else case_when ws d x)"

definition STATUS_SORT_CLAUSE :: "string \<Rightarrow> nat" where
  "STATUS_SORT_CLAUSE = case_when (enumerate 0 STATUS_SORT) (length STATUS_SORT)"

text \<open>\<^verbatim>\<open>CREATE TABLE IF NOT EXISTS\<close>: \<open>None\<close> is a database without the table.\<close>

definition init_db :: "store option \<Rightarrow> store" where
  "init_db db = (case db of None \<Rightarrow> \<lparr>rows = [], seq = 0\<rparr> | Some s \<Rightarrow> s)"

text \<open>\<^verbatim>\<open>SELECT COUNT(*) FROM emails\<close>\<close>

definition count_rows :: "store \<Rightarrow> int" where
  "count_rows s = int (length (rows s))"

text \<open>
  Ids are 64-bit signed integers; \<open>MAX_ROWID\<close> is the largest, \<open>2^63 - 1\<close>.
\<close>

definition MAX_ROWID :: int where
  "MAX_ROWID = 9223372036854775807"

text \<open>The largest id among the rows, None for an empty table.\<close>

fun largest_id :: "entry list \<Rightarrow> int option" where
  "largest_id [] = None"
| "largest_id (e # es) =
     (case largest_id es of None \<Rightarrow> Some (eid e) | Some m \<Rightarrow> Some (max (eid e) m))"

text \<open>
  The id that SQLite gives to a new row of an AUTOINCREMENT table. It starts from 1 for
  an empty table and from one more than the largest id otherwise; the largest id at
  \<open>MAX_ROWID\<close> fails with SQLITE_FULL. Then the counter of \<^verbatim>\<open>sqlite_sequence\<close>
  is read: at \<open>MAX_ROWID\<close> it fails with SQLITE_FULL, else the id is raised to one
  more than the counter.
\<close>

definition next_rowid :: "store \<Rightarrow> error + int" where
  "next_rowid s =
     (let v = (case largest_id (rows s) of
                 None \<Rightarrow> Some 1
               | Some k \<Rightarrow> if k \<ge> MAX_ROWID then None else Some (k + 1))
      in case v of
           None \<Rightarrow> Inl OperationalError
         | Some v \<Rightarrow>
             if seq s = MAX_ROWID then Inl OperationalError
             else Inr (max v (seq s + 1)))"

text \<open>
  \<^verbatim>\<open>INSERT INTO emails (email, status, number) VALUES (?, ?, ?)\<close>. SQLite chooses
  the id first, so a table whose ids are used up raises \<^verbatim>\<open>sqlite3.OperationalError\<close>
  whatever the email is. Then an email that is already in the table violates the UNIQUE
  constraint and the statement raises \<^verbatim>\<open>sqlite3.IntegrityError\<close>. A statement that
  raises changes nothing, the counter included. Otherwise the row is added under the new
  id and the counter becomes that id.
\<close>

definition sql_insert :: "store \<Rightarrow> string \<times> string \<times> string option \<Rightarrow> error + store" where
  "sql_insert s r =
     (case r of (em, st, num) \<Rightarrow>
        (case next_rowid s of
           Inl e \<Rightarrow> Inl e
         | Inr i \<Rightarrow>
             if em \<in> set (map email (rows s)) then Inl IntegrityError
             else Inr (s\<lparr>rows := rows s @
                          [\<lparr>eid = i, email = em, status = st, number = num\<rparr>],
                        seq := i\<rparr>)))"

text \<open>\<^verbatim>\<open>conn.executemany\<close> runs the statement for each row and stops at the first error.\<close>

fun executemany :: "store \<Rightarrow> (string \<times> string \<times> string option) list \<Rightarrow> error + store" where
  "executemany s [] = Inr s"
| "executemany s (r # rs) =
     (case sql_insert s r of Inl e \<Rightarrow> Inl e | Inr s' \<Rightarrow> executemany s' rs)"

text \<open>\<^verbatim>\<open>UPDATE emails SET status = ? WHERE id = ?\<close>\<close>

definition sql_update_status :: "store \<Rightarrow> string \<Rightarrow> int \<Rightarrow> store" where
  "sql_update_status s st row_id =
     s\<lparr>rows := map (\<lambda>e. if eid e = row_id then e\<lparr>status := st\<rparr> else e) (rows s)\<rparr>"

text \<open>\<^verbatim>\<open>UPDATE emails SET number = ? WHERE id = ?\<close>\<close>

definition sql_update_number :: "store \<Rightarrow> string option \<Rightarrow> int \<Rightarrow> store" where
  "sql_update_number s num row_id =
     s\<lparr>rows := map (\<lambda>e. if eid e = row_id then e\<lparr>number := num\<rparr> else e) (rows s)\<rparr>"

text \<open>\<^verbatim>\<open>DELETE FROM emails WHERE id = ?\<close>\<close>

definition sql_delete :: "store \<Rightarrow> int \<Rightarrow> store" where
  "sql_delete s row_id = s\<lparr>rows := filter (\<lambda>e. eid e \<noteq> row_id) (rows s)\<rparr>"

text \<open>
  \<^verbatim>\<open>SELECT id, email, status, number FROM emails ORDER BY <STATUS_SORT_CLAUSE>, id\<close>
\<close>

definition select_ordered :: "store \<Rightarrow> entry list" where
  "select_ordered s = sort_key (\<lambda>e. (STATUS_SORT_CLAUSE (status e), eid e)) (rows s)"

section \<open>The window\<close>

text \<open>
  A \<^verbatim>\<open>QTableWidgetItem\<close> has a text and the data stored under \<^verbatim>\<open>UserRole\<close>
  (None when nothing was stored). A row of the table has the email item in column 0, the
  status box in column 1 and the number item in column 2. The status box is connected to
  \<^verbatim>\<open>partial(self._update_status, row_id)\<close>: \<open>bound_id\<close> is that \<^verbatim>\<open>row_id\<close>.
\<close>

record item =
  item_text :: string
  item_data :: "int option"
  item_editable :: bool

record combo =
  combo_items :: "string list"
  current_text :: string
  bound_id :: int

record view_row =
  email_item :: "item option"
  status_box :: "combo option"
  number_item :: "item option"

record app =
  loading :: bool
  conn :: store
  table :: "view_row list"
  email_input :: string
  status_input :: string
  number_input :: string

datatype notice = Missing_Email | Duplicate_Email

datatype button = Yes | No

text \<open>\<^verbatim>\<open>x or None\<close> for a text \<^verbatim>\<open>x\<close>\<close>

definition or_none :: "string \<Rightarrow> string option" where
  "or_none x = (if x = [] then None else Some x)"

text \<open>\<^verbatim>\<open>self.table.item(row, column)\<close>: None outside the table and for an unset cell.\<close>

definition table_item :: "view_row list \<Rightarrow> nat \<Rightarrow> nat \<Rightarrow> item option" where
  "table_item t row column =
     (if row < length t then
        (if column = 0 then email_item (t ! row)
         else if column = 2 then number_item (t ! row)
         else None)
      else None)"

definition row_id_for_row :: "app \<Rightarrow> nat \<Rightarrow> int option" where
  "row_id_for_row a row =
     (case table_item (table a) row 0 of None \<Rightarrow> None | Some it \<Rightarrow> item_data it)"

definition update_status :: "app \<Rightarrow> int \<Rightarrow> string \<Rightarrow> app" where
  "update_status a row_id st =
     (if loading a then a
      else if st \<notin> set STATUSES then a
      else a\<lparr>conn := sql_update_status (conn a) st row_id\<rparr>)"

text \<open>
  \<^verbatim>\<open>_on_item_changed(item)\<close>: \<open>row\<close> and \<open>column\<close> are \<^verbatim>\<open>item.row()\<close> and
  \<^verbatim>\<open>item.column()\<close>.
\<close>

definition on_item_changed :: "app \<Rightarrow> nat \<Rightarrow> nat \<Rightarrow> item \<Rightarrow> app" where
  "on_item_changed a row column it =
     (if loading a then a
      else if column \<noteq> 2 then a
      else
        (let row_id = (case item_data it of None \<Rightarrow> row_id_for_row a row | Some r \<Rightarrow> Some r)
         in case row_id of
              None \<Rightarrow> a
            | Some r \<Rightarrow>
                (let number = or_none (strip (item_text it))
                 in a\<lparr>conn := sql_update_number (conn a) number r\<rparr>)))"

text \<open>
  The body of the loop of \<^verbatim>\<open>_load_rows\<close> for one fetched row. The table emits
  \<^verbatim>\<open>itemChanged\<close> when an item is set into a cell, and \<^verbatim>\<open>_build_ui\<close> has
  connected that signal to \<^verbatim>\<open>_on_item_changed\<close>, so the handler runs after each
  \<^verbatim>\<open>setItem\<close>. The status box is given its text before its signal is connected.
\<close>

definition set_item :: "app \<Rightarrow> nat \<Rightarrow> nat \<Rightarrow> item \<Rightarrow> app" where
  "set_item a row column it =
     (let t = table a;
          t' = (if row < length t then
                  (if column = 0 then t[row := (t ! row)\<lparr>email_item := Some it\<rparr>]
                   else if column = 2 then t[row := (t ! row)\<lparr>number_item := Some it\<rparr>]
                   else t)
                else t)
      in on_item_changed (a\<lparr>table := t'\<rparr>) row column it)"

definition set_cell_widget :: "app \<Rightarrow> nat \<Rightarrow> combo \<Rightarrow> app" where
  "set_cell_widget a row box =
     (let t = table a
      in a\<lparr>table := (if row < length t then t[row := (t ! row)\<lparr>status_box := Some box\<rparr>] else t)\<rparr>)"

definition insert_row :: "app \<Rightarrow> nat \<Rightarrow> app" where
  "insert_row a row =
     (let t = table a
      in if row \<le> length t
         then a\<lparr>table := take row t @
                  [\<lparr>email_item = None, status_box = None, number_item = None\<rparr>] @ drop row t\<rparr>
         else a)"

definition show_row :: "app \<Rightarrow> nat \<Rightarrow> entry \<Rightarrow> app" where
  "show_row a row_index e =
     (let a1 = insert_row a row_index;
          email_item = \<lparr>item_text = email e, item_data = Some (eid e), item_editable = False\<rparr>;
          a2 = set_item a1 row_index 0 email_item;
          status_box = \<lparr>combo_items = STATUSES,
                        current_text = (if status e \<in> set STATUSES then status e else ''unused''),
                        bound_id = eid e\<rparr>;
          a3 = set_cell_widget a2 row_index status_box;
          number_item = \<lparr>item_text = or_empty (number e), item_data = Some (eid e),
                         item_editable = True\<rparr>
      in set_item a3 row_index 2 number_item)"

fun show_rows :: "app \<Rightarrow> nat \<Rightarrow> entry list \<Rightarrow> app" where
  "show_rows a row_index [] = a"
| "show_rows a row_index (e # es) = show_rows (show_row a row_index e) (Suc row_index) es"

definition load_rows :: "app \<Rightarrow> app" where
  "load_rows a =
     (let a1 = a\<lparr>loading := True\<rparr>;
          a2 = a1\<lparr>table := []\<rparr>;
          fetched = select_ordered (conn a2);
          a3 = show_rows a2 0 fetched
      in a3\<lparr>loading := False\<rparr>)"

text \<open>
  \<^verbatim>\<open>_ensure_seed_data\<close>: the rows of \<^verbatim>\<open>parse_seed()\<close> go to
  \<^verbatim>\<open>executemany\<close> as they are, the number as a text. An error of the insert is not
  caught.
\<close>

definition ensure_seed_data :: "string \<Rightarrow> store \<Rightarrow> error + store" where
  "ensure_seed_data SEED_TEXT s =
     (let count = count_rows s in
      if count \<noteq> 0 then Inr s
      else
        (let seed_rows = parse_seed SEED_TEXT in
         if seed_rows = [] then Inr s
         else executemany s (map (\<lambda>(em, st, num). (em, st, Some num)) seed_rows)))"

text \<open>
  \<^verbatim>\<open>EmailChecklistApp.__init__\<close>, applied to the seed text and the database found
  on disk: \<^verbatim>\<open>_init_db\<close>, \<^verbatim>\<open>_ensure_seed_data\<close>, \<^verbatim>\<open>_build_ui\<close> (empty
  inputs, the status input at \<^verbatim>\<open>unused\<close>, an empty table), \<^verbatim>\<open>_load_rows\<close>.
\<close>

definition build_ui :: "store \<Rightarrow> app" where
  "build_ui s = \<lparr>loading = False, conn = s, table = [], email_input = [],
     status_input = ''unused'', number_input = []\<rparr>"

definition startup :: "string \<Rightarrow> store option \<Rightarrow> error + app" where
  "startup SEED_TEXT db =
     (case ensure_seed_data SEED_TEXT (init_db db) of
        Inl e \<Rightarrow> Inl e
      | Inr s \<Rightarrow> Inr (load_rows (build_ui s)))"

text \<open>
  \<^verbatim>\<open>_add_email\<close>: the result is the warning shown, if any, and the new state. The
  handler catches \<^verbatim>\<open>sqlite3.IntegrityError\<close> only; any other exception of the
  insert leaves the handler, which is the result \<open>Inl\<close>.
\<close>

definition add_email :: "app \<Rightarrow> error + notice option \<times> app" where
  "add_email a =
     (let em = strip (email_input a) in
      if em = [] then Inr (Some Missing_Email, a)
      else
        (let st = status_input a;
             num = or_none (strip (number_input a))
         in case sql_insert (conn a) (em, st, num) of
              Inl IntegrityError \<Rightarrow> Inr (Some Duplicate_Email, a)
            | Inl OperationalError \<Rightarrow> Inl OperationalError
            | Inr s \<Rightarrow>
                Inr (None, load_rows (a\<lparr>conn := s, email_input := [], number_input := []\<rparr>))))"

text \<open>
  \<^verbatim>\<open>_delete_selected\<close>: \<open>selectedItems\<close> gives the row and the column of each
  selected item, \<open>answer\<close> is the button pressed in the confirmation dialog (asked only
  when some row is selected). The loop reads the table and deletes from the store.
\<close>

fun delete_rows :: "app \<Rightarrow> nat list \<Rightarrow> store \<Rightarrow> store" where
  "delete_rows a [] s = s"
| "delete_rows a (row # rs) s =
     (case row_id_for_row a row of
        None \<Rightarrow> delete_rows a rs s
      | Some row_id \<Rightarrow> delete_rows a rs (sql_delete s row_id))"

definition delete_selected :: "app \<Rightarrow> (nat \<times> nat) list \<Rightarrow> button \<Rightarrow> app" where
  "delete_selected a selectedItems answer =
     (let rws = remdups (map fst selectedItems) in
      if rws = [] then a
      else if answer \<noteq> Yes then a
      else load_rows (a\<lparr>conn := delete_rows a (rev (sort rws)) (conn a)\<rparr>))"

section \<open>Lemmas on the matcher\<close>

text \<open>
  Each construct of the matcher is inverted: a state among the results of a construct
  determines how the subject splits. From these, every result of \<open>pattern\<close> on a line
  fixes the shape of the line.
\<close>

lemma plus_match_set:
  "(p', s', g') \<in> set (plus_match k p s g) \<Longrightarrow>
     \<exists>u. u \<noteq> [] \<and> (\<forall>c\<in>set u. in_cls k c) \<and> s = u @ s' \<and> p' = p + length u \<and> g' = g"
proof (induction s arbitrary: p)
  case Nil
  then show ?case by simp
next
  case (Cons d t)
  from Cons.prems have d: "in_cls k d" by (auto split: if_splits)
  from Cons.prems d consider "(p', s', g') \<in> set (plus_match k (Suc p) t g)"
    | "p' = Suc p" "s' = t" "g' = g" by auto
  then show ?case
  proof cases
    case 1
    from Cons.IH[OF 1] obtain u where "u \<noteq> []" "\<forall>c\<in>set u. in_cls k c" "t = u @ s'"
      "p' = Suc p + length u" "g' = g" by blast
    with d show ?thesis by (intro exI[of _ "d # u"]) simp
  next
    case 2
    with d show ?thesis by (intro exI[of _ "[d]"]) simp
  qed
qed

lemma seq_set:
  "m' \<in> set (rx_match (Seq a b) m) \<longleftrightarrow> (\<exists>m1\<in>set (rx_match a m). m' \<in> set (rx_match b m1))"
  by simp

lemma lit_set:
  "(p', s', g') \<in> set (rx_match (Lit c) (p, s, g)) \<longleftrightarrow> s = c # s' \<and> p' = Suc p \<and> g' = g"
  by (auto split: list.splits)

lemma cls_set:
  "(p', s', g') \<in> set (rx_match (Cls k) (p, s, g)) \<longleftrightarrow>
     (\<exists>d. in_cls k d \<and> s = d # s') \<and> p' = Suc p \<and> g' = g"
  by (auto split: list.splits)

lemma group_set:
  "(p', s', g') \<in> set (rx_match (Group n a) (p, s, g)) \<longleftrightarrow>
     (\<exists>g1. (p', s', g1) \<in> set (rx_match a (p, s, g)) \<and> g' = (n, take (p' - p) s) # g1)"
  by force

lemma opt_set: "m' \<in> set (rx_match (Opt a) m) \<longleftrightarrow> m' \<in> set (rx_match a m) \<or> m' = m"
  by auto

lemma eol_set:
  "(p', s', g') \<in> set (rx_match Eol (p, s, g)) \<longleftrightarrow>
     (s = [] \<or> s = [CHR 0x0A]) \<and> p' = p \<and> s' = s \<and> g' = g"
  by auto

lemma bol_set:
  "(p', s', g') \<in> set (rx_match Bol (p, s, g)) \<longleftrightarrow> p = 0 \<and> p' = p \<and> s' = s \<and> g' = g"
  by auto

lemma plus_set:
  "(p', s', g') \<in> set (rx_match (Plus k) (p, s, g)) \<Longrightarrow>
     \<exists>u. u \<noteq> [] \<and> (\<forall>c\<in>set u. in_cls k c) \<and> s = u @ s' \<and> p' = p + length u \<and> g' = g"
  by (simp add: plus_match_set)

lemma seqE:
  assumes "m' \<in> set (rx_match (Seq a b) m)"
  obtains p1 s1 g1 where "(p1, s1, g1) \<in> set (rx_match a m)" "m' \<in> set (rx_match b (p1, s1, g1))"
  using assms by auto

lemma number_suffix_set:
  assumes "(p', s', g') \<in> set (rx_match number_suffix (p, s, g))"
  shows "\<exists>ws X. ws \<noteq> [] \<and> (\<forall>c\<in>set ws. is_space c) \<and> X \<noteq> [] \<and> CHR '')'' \<notin> set X
           \<and> s = ws @ ''('' @ X @ '')'' @ s' \<and> g' = (''number'', X) # g"
proof -
  from assms[unfolded number_suffix_def] obtain p1 s1 g1 where
    m1: "(p1, s1, g1) \<in> set (rx_match (Plus Space) (p, s, g))" and
    r1: "(p', s', g') \<in> set (rx_match (Seq (Lit CHR ''('')
       (Seq (Group ''number'' (Plus (NoneOf '')''))) (Lit CHR '')''))) (p1, s1, g1))"
    by (rule seqE)
  from plus_set[OF m1] obtain ws where ws: "ws \<noteq> []" "\<forall>c\<in>set ws. is_space c"
    "s = ws @ s1" "g1 = g" by auto
  from r1 obtain p2 s2 g2 where
    m2: "(p2, s2, g2) \<in> set (rx_match (Lit CHR ''('') (p1, s1, g1))" and
    r2: "(p', s', g') \<in> set (rx_match (Seq (Group ''number'' (Plus (NoneOf '')''))) (Lit CHR '')'')) (p2, s2, g2))"
    by (rule seqE)
  from m2 have s1: "s1 = CHR ''('' # s2" "g2 = g1" unfolding lit_set by simp_all
  from r2 obtain p3 s3 g3 where
    m3: "(p3, s3, g3) \<in> set (rx_match (Group ''number'' (Plus (NoneOf '')''))) (p2, s2, g2))" and
    r3: "(p', s', g') \<in> set (rx_match (Lit CHR '')'') (p3, s3, g3))"
    by (rule seqE)
  from m3 obtain g3' where
    m3': "(p3, s3, g3') \<in> set (rx_match (Plus (NoneOf '')'')) (p2, s2, g2))" and
    g3: "g3 = (''number'', take (p3 - p2) s2) # g3'"
    unfolding group_set by blast
  from plus_set[OF m3'] obtain X where X: "X \<noteq> []" "\<forall>c\<in>set X. in_cls (NoneOf '')'') c"
    "s2 = X @ s3" "p3 = p2 + length X" "g3' = g2" by auto
  from r3 have s3: "s3 = CHR '')'' # s'" "g' = g3" unfolding lit_set by simp_all
  have "take (p3 - p2) s2 = X" by (simp add: X(3,4))
  then have g: "g' = (''number'', X) # g" by (simp add: s3(2) g3 X(5) s1(2) ws(4))
  have s: "s = ws @ ''('' @ X @ '')'' @ s'" by (simp add: ws(3) s1(1) X(3) s3(1))
  from X(2) have "CHR '')'' \<notin> set X" by auto
  with ws(1,2) X(1) g s show ?thesis by blast
qed

lemma pattern_set:
  assumes "(p', s', g') \<in> set (rx_match pattern (0, L, []))"
  shows "\<exists>st ws1 em rest. L = ''* ['' @ [st] @ '']'' @ ws1 @ em @ rest
           \<and> st \<in> set ''xo- ''
           \<and> ws1 \<noteq> [] \<and> (\<forall>c\<in>set ws1. is_space c)
           \<and> em \<noteq> [] \<and> (\<forall>c\<in>set em. \<not> is_space c)
           \<and> (s' = [] \<or> s' = [CHR 0x0A])
           \<and> (rest = s' \<and> g' = [(''email'', em), (''state'', [st])]
              \<or> (\<exists>ws2 X. ws2 \<noteq> [] \<and> (\<forall>c\<in>set ws2. is_space c) \<and> X \<noteq> []
                    \<and> CHR '')'' \<notin> set X \<and> rest = ws2 @ ''('' @ X @ '')'' @ s'
                    \<and> g' = [(''number'', X), (''email'', em), (''state'', [st])]))"
proof -
  from assms[unfolded pattern_def] obtain pa sa ga where
    ma: "(pa, sa, ga) \<in> set (rx_match Bol (0, L, []))" and
    ra: "(p', s', g') \<in> set (rx_match (Seq (Lit CHR ''*'') (Seq (Lit CHR '' '') (Seq (Lit CHR ''['')
       (Seq (Group ''state'' (Cls (OneOf ''xo- ''))) (Seq (Lit CHR '']'')
         (Seq (Plus Space) (Seq (Group ''email'' (Plus NonSpace))
           (Seq (Opt number_suffix) Eol))))))))  (pa, sa, ga))"
    by (rule seqE)
  from ma have a: "sa = L" "ga = []" unfolding bol_set by simp_all
  from ra obtain pb sb gb where
    mb: "(pb, sb, gb) \<in> set (rx_match (Lit CHR ''*'') (pa, sa, ga))" and
    rb: "(p', s', g') \<in> set (rx_match (Seq (Lit CHR '' '') (Seq (Lit CHR ''['')
       (Seq (Group ''state'' (Cls (OneOf ''xo- ''))) (Seq (Lit CHR '']'')
         (Seq (Plus Space) (Seq (Group ''email'' (Plus NonSpace))
           (Seq (Opt number_suffix) Eol)))))))  (pb, sb, gb))"
    by (rule seqE)
  from mb have b: "sa = CHR ''*'' # sb" "gb = ga" unfolding lit_set by simp_all
  from rb obtain pc sc gc where
    mc: "(pc, sc, gc) \<in> set (rx_match (Lit CHR '' '') (pb, sb, gb))" and
    rc: "(p', s', g') \<in> set (rx_match (Seq (Lit CHR ''['')
       (Seq (Group ''state'' (Cls (OneOf ''xo- ''))) (Seq (Lit CHR '']'')
         (Seq (Plus Space) (Seq (Group ''email'' (Plus NonSpace))
           (Seq (Opt number_suffix) Eol))))))  (pc, sc, gc))"
    by (rule seqE)
  from mc have c: "sb = CHR '' '' # sc" "gc = gb" unfolding lit_set by simp_all
  from rc obtain pd sd gd where
    md: "(pd, sd, gd) \<in> set (rx_match (Lit CHR ''['') (pc, sc, gc))" and
    rd: "(p', s', g') \<in> set (rx_match
       (Seq (Group ''state'' (Cls (OneOf ''xo- ''))) (Seq (Lit CHR '']'')
         (Seq (Plus Space) (Seq (Group ''email'' (Plus NonSpace))
           (Seq (Opt number_suffix) Eol)))))  (pd, sd, gd))"
    by (rule seqE)
  from md have d: "sc = CHR ''['' # sd" "gd = gc" unfolding lit_set by simp_all
  from rd obtain pe se ge where
    me: "(pe, se, ge) \<in> set (rx_match (Group ''state'' (Cls (OneOf ''xo- ''))) (pd, sd, gd))" and
    re: "(p', s', g') \<in> set (rx_match (Seq (Lit CHR '']'')
         (Seq (Plus Space) (Seq (Group ''email'' (Plus NonSpace))
           (Seq (Opt number_suffix) Eol))))  (pe, se, ge))"
    by (rule seqE)
  from me obtain st where e: "sd = st # se" "in_cls (OneOf ''xo- '') st" "ge = (''state'', [st]) # gd"
    unfolding group_set cls_set by auto
  from re obtain pf sf gf where
    mf: "(pf, sf, gf) \<in> set (rx_match (Lit CHR '']'') (pe, se, ge))" and
    rf: "(p', s', g') \<in> set (rx_match
         (Seq (Plus Space) (Seq (Group ''email'' (Plus NonSpace))
           (Seq (Opt number_suffix) Eol)))  (pf, sf, gf))"
    by (rule seqE)
  from mf have f: "se = CHR '']'' # sf" "gf = ge" unfolding lit_set by simp_all
  from a b c d e f have L: "L = ''* ['' @ [st] @ '']'' @ sf" and st: "st \<in> set ''xo- ''"
    and gf: "gf = [(''state'', [st])]" by simp_all
  from rf obtain p2 s2 g2 where
    m2: "(p2, s2, g2) \<in> set (rx_match (Plus Space) (pf, sf, gf))" and
    r2: "(p', s', g') \<in> set (rx_match (Seq (Group ''email'' (Plus NonSpace))
           (Seq (Opt number_suffix) Eol)) (p2, s2, g2))"
    by (rule seqE)
  from plus_set[OF m2] obtain ws1 where ws1: "ws1 \<noteq> []" "\<forall>c\<in>set ws1. is_space c"
    "sf = ws1 @ s2" "g2 = gf" by auto
  from r2 obtain p3 s3 g3 where
    m3: "(p3, s3, g3) \<in> set (rx_match (Group ''email'' (Plus NonSpace)) (p2, s2, g2))" and
    r3: "(p', s', g') \<in> set (rx_match (Seq (Opt number_suffix) Eol) (p3, s3, g3))"
    by (rule seqE)
  from m3 obtain g3' where
    m3': "(p3, s3, g3') \<in> set (rx_match (Plus NonSpace) (p2, s2, g2))" and
    g3: "g3 = (''email'', take (p3 - p2) s2) # g3'"
    unfolding group_set by blast
  from plus_set[OF m3'] obtain em where em: "em \<noteq> []" "\<forall>c\<in>set em. in_cls NonSpace c"
    "s2 = em @ s3" "p3 = p2 + length em" "g3' = g2" by auto
  with g3 have g3e: "g3 = (''email'', em) # g2" by simp
  from r3 obtain p4 s4 g4 where
    m4: "(p4, s4, g4) \<in> set (rx_match (Opt number_suffix) (p3, s3, g3))" and
    r4: "(p', s', g') \<in> set (rx_match Eol (p4, s4, g4))"
    by (rule seqE)
  from r4 have e4: "s' = [] \<or> s' = [CHR 0x0A]" "s4 = s'" "g4 = g'"
    unfolding eol_set by auto
  have Lw: "L = ''* ['' @ [st] @ '']'' @ ws1 @ em @ s3" by (simp add: L ws1(3) em(3))
  from em(2) have emns: "\<forall>c\<in>set em. \<not> is_space c" by simp
  from m4 consider "(p4, s4, g4) \<in> set (rx_match number_suffix (p3, s3, g3))"
    | "s4 = s3" "g4 = g3"
    unfolding opt_set by auto
  then show ?thesis
  proof cases
    case 1
    from number_suffix_set[OF 1] obtain ws2 X where "ws2 \<noteq> []" "\<forall>c\<in>set ws2. is_space c"
      "X \<noteq> []" "CHR '')'' \<notin> set X" "s3 = ws2 @ ''('' @ X @ '')'' @ s4"
      "g4 = (''number'', X) # g3" by blast
    then have "s3 = ws2 @ ''('' @ X @ '')'' @ s'"
      "g' = [(''number'', X), (''email'', em), (''state'', [st])]"
      by (simp_all add: e4(2) e4(3)[symmetric] g3e ws1(4) gf)
    with \<open>ws2 \<noteq> []\<close> \<open>\<forall>c\<in>set ws2. is_space c\<close> \<open>X \<noteq> []\<close> \<open>CHR '')'' \<notin> set X\<close>
    have "\<exists>ws2 X. ws2 \<noteq> [] \<and> (\<forall>c\<in>set ws2. is_space c) \<and> X \<noteq> []
                    \<and> CHR '')'' \<notin> set X \<and> s3 = ws2 @ ''('' @ X @ '')'' @ s'
                    \<and> g' = [(''number'', X), (''email'', em), (''state'', [st])]"
      by blast
    with Lw st ws1(1,2) em(1) emns e4(1) show ?thesis by blast
  next
    case 2
    then have "s3 = s'" "g' = [(''email'', em), (''state'', [st])]"
      by (simp_all add: e4(2)[symmetric] e4(3)[symmetric] g3e ws1(4) gf)
    with Lw st ws1(1,2) em(1) emns e4(1) show ?thesis by blast
  qed
qed


lemma strip_last: "strip l \<noteq> [] \<Longrightarrow> \<not> is_space (last (strip l))"
  unfolding strip_def by (simp add: last_rev hd_dropWhile)

lemma strip_nonspace: "u \<noteq> [] \<Longrightarrow> \<forall>c\<in>set u. \<not> is_space c \<Longrightarrow> strip u = u"
proof -
  assume u: "u \<noteq> []" "\<forall>c\<in>set u. \<not> is_space c"
  then have "dropWhile is_space u = u" by (cases u) auto
  moreover from u have "dropWhile is_space (rev u) = rev u" by (cases "rev u") auto
  ultimately show ?thesis unfolding strip_def by simp
qed

lemma re_match_set:
  "re_match r s = Some g \<Longrightarrow> \<exists>p t. (p, t, g) \<in> set (rx_match r (0, s, []))"
  unfolding re_match_def by (auto split: list.splits)

lemma open_paren_plain:
  "CHR ''('' \<notin> set u \<Longrightarrow> CHR '')'' \<notin> set u \<Longrightarrow>
     open_paren 0 (u @ CHR ''('' # r) acc = Some (rev u @ acc)"
  by (induction u arbitrary: acc) auto

lemma last_parenthesized_plain:
  assumes "CHR ''('' \<notin> set X" "CHR '')'' \<notin> set X"
  shows "last_parenthesized (pre @ ''('' @ X @ '')'') = Some X"
  using assms open_paren_plain[of "rev X" "rev pre" "[]"]
  unfolding last_parenthesized_def by simp

lemma pattern_stripped:
  assumes "re_match pattern (strip l) = Some m"
  shows "\<exists>st ws1 em. st \<in> set ''xo- '' \<and> ws1 \<noteq> [] \<and> (\<forall>c\<in>set ws1. is_space c)
           \<and> em \<noteq> [] \<and> (\<forall>c\<in>set em. \<not> is_space c)
           \<and> (strip l = ''* ['' @ [st] @ '']'' @ ws1 @ em
                \<and> m = [(''email'', em), (''state'', [st])]
              \<or> (\<exists>ws2 X. ws2 \<noteq> [] \<and> (\<forall>c\<in>set ws2. is_space c) \<and> X \<noteq> []
                    \<and> CHR '')'' \<notin> set X
                    \<and> strip l = ''* ['' @ [st] @ '']'' @ ws1 @ em @ ws2 @ ''('' @ X @ '')''
                    \<and> m = [(''number'', X), (''email'', em), (''state'', [st])]))"
proof -
  from re_match_set[OF assms] obtain p t where
    "(p, t, m) \<in> set (rx_match pattern (0, strip l, []))" by blast
  from pattern_set[OF this] obtain st ws1 em rest where
    L: "strip l = ''* ['' @ [st] @ '']'' @ ws1 @ em @ rest" and
    st: "st \<in> set ''xo- ''" and ws1: "ws1 \<noteq> []" "\<forall>c\<in>set ws1. is_space c" and
    em: "em \<noteq> []" "\<forall>c\<in>set em. \<not> is_space c" and
    t: "t = [] \<or> t = [CHR 0x0A]" and
    alt: "rest = t \<and> m = [(''email'', em), (''state'', [st])]
              \<or> (\<exists>ws2 X. ws2 \<noteq> [] \<and> (\<forall>c\<in>set ws2. is_space c) \<and> X \<noteq> []
                    \<and> CHR '')'' \<notin> set X \<and> rest = ws2 @ ''('' @ X @ '')'' @ t
                    \<and> m = [(''number'', X), (''email'', em), (''state'', [st])])"
    by blast
  have ne: "strip l \<noteq> []" using L by simp
  have "t = []"
  proof (rule ccontr)
    assume "t \<noteq> []"
    with t have t1: "t = [CHR 0x0A]" by simp
    from alt have "\<exists>pre. strip l = pre @ t" using L by (metis append.assoc)
    with t1 have "last (strip l) = CHR 0x0A" by auto
    moreover have "is_space (CHR 0x0A)" by (simp add: is_space_def)
    ultimately show False using strip_last[OF ne] by simp
  qed
  with alt L have "strip l = ''* ['' @ [st] @ '']'' @ ws1 @ em
                \<and> m = [(''email'', em), (''state'', [st])]
              \<or> (\<exists>ws2 X. ws2 \<noteq> [] \<and> (\<forall>c\<in>set ws2. is_space c) \<and> X \<noteq> []
                    \<and> CHR '')'' \<notin> set X
                    \<and> strip l = ''* ['' @ [st] @ '']'' @ ws1 @ em @ ws2 @ ''('' @ X @ '')''
                    \<and> m = [(''number'', X), (''email'', em), (''state'', [st])])"
    by auto
  with st ws1 em show ?thesis by blast
qed

section \<open>Lemmas on lines\<close>

lemma splitlines_from_LF:
  "splitlines_from cur (A @ CHR 0x0A # T) = splitlines_from cur (A @ [CHR 0x0A]) @ splitlines_from [] T"
proof (induction cur A rule: splitlines_from.induct)
  case (1 cur)
  then show ?case by (simp add: is_linebreak_def)
next
  case (2 cur c cs)
  then show ?case by (cases cs) (auto simp: is_linebreak_def)
qed

lemma splitlines_from_line:
  "\<forall>c\<in>set l. \<not> is_linebreak c \<Longrightarrow>
     splitlines_from cur (l @ CHR 0x0A # T) = (rev cur @ l) # splitlines_from [] T"
proof (induction l arbitrary: cur)
  case Nil
  then show ?case by (simp add: is_linebreak_def)
next
  case (Cons c l)
  then have "c \<noteq> CHR 0x0D" by (auto simp: is_linebreak_def)
  with Cons show ?case by simp
qed

lemma parse_lines_append: "parse_lines (xs @ ys) = parse_lines xs @ parse_lines ys"
  by (induction xs) (auto split: option.splits)

lemma parse_lines_map_filter: "parse_lines ls = List.map_filter parse_line ls"
  by (induction ls) (auto simp: List.map_filter_simps split: option.splits)

lemma splitlines_insert:
  assumes "A = [] \<or> last A = CHR 0x0A" "\<forall>c\<in>set l. \<not> is_linebreak c"
  shows "splitlines (A @ l @ CHR 0x0A # B) = splitlines A @ [l] @ splitlines B"
    and "splitlines (A @ B) = splitlines A @ splitlines B"
proof -
  from assms(1) consider "A = []" | A' where "A = A' @ [CHR 0x0A]"
    by (metis append_butlast_last_id)
  then have "splitlines (A @ l @ CHR 0x0A # B) = splitlines A @ [l] @ splitlines B
    \<and> splitlines (A @ B) = splitlines A @ splitlines B"
  proof cases
    case 1
    then show ?thesis using splitlines_from_line[OF assms(2), of "[]" B]
      by (simp add: splitlines_def)
  next
    case 2
    then show ?thesis
      using splitlines_from_LF[of "[]" A' "l @ CHR 0x0A # B"] splitlines_from_LF[of "[]" A' B]
        splitlines_from_line[OF assms(2), of "[]" B]
      by (simp add: splitlines_def)
  qed
  then show "splitlines (A @ l @ CHR 0x0A # B) = splitlines A @ [l] @ splitlines B"
    and "splitlines (A @ B) = splitlines A @ splitlines B" by simp_all
qed

section \<open>Properties of the seed parser\<close>

text \<open>
  C7. A line that is empty after trimming, or that the pattern does not match, gives no
  row, and the parser has no error result. Inserting such a line (a text without line
  breaks, followed by a newline) at the start of a document or after a newline leaves the
  rows of the document as they were.
\<close>

theorem skipped_line:
  assumes "strip l = [] \<or> re_match pattern (strip l) = None"
    and "\<forall>c\<in>set l. \<not> is_linebreak c"
    and "A = [] \<or> last A = CHR 0x0A"
  shows "parse_line l = None \<and> parse_seed (A @ l @ [CHR 0x0A] @ B) = parse_seed (A @ B)"
proof -
  from assms(1) have n: "parse_line l = None" by (auto simp: parse_line_def Let_def)
  then have "parse_lines [l] = []" by simp
  then show ?thesis
    using n splitlines_insert[OF assms(3,2), of B]
    by (simp add: parse_seed_def parse_lines_append)
qed


theorem skipped_line_witness:
  "(strip ''not a checklist item'' = [] \<or> re_match pattern (strip ''not a checklist item'') = None)
   \<and> (''* [x] a@x.com (7)'' @ [CHR 0x0A] = [] \<or> last (''* [x] a@x.com (7)'' @ [CHR 0x0A]) = CHR 0x0A)
   \<and> parse_line ''not a checklist item'' = None
   \<and> parse_seed ((''* [x] a@x.com (7)'' @ [CHR 0x0A]) @ ''not a checklist item'' @ [CHR 0x0A] @ ''* [o] b@x.com'')
       = parse_seed ((''* [x] a@x.com (7)'' @ [CHR 0x0A]) @ ''* [o] b@x.com'')"
proof -
  have h1: "strip ''not a checklist item'' = [] \<or> re_match pattern (strip ''not a checklist item'') = None"
    by code_simp
  have h2: "\<forall>c\<in>set ''not a checklist item''. \<not> is_linebreak c"
    by code_simp
  have h3: "''* [x] a@x.com (7)'' @ [CHR 0x0A] = [] \<or> last (''* [x] a@x.com (7)'' @ [CHR 0x0A]) = CHR 0x0A"
    by simp
  from h1 h3 skipped_line[OF h1 h2 h3, of "''* [o] b@x.com''"] show ?thesis by blast
qed


text \<open>
  C6, as amended. On a line that the pattern matches with the group \<^verbatim>\<open>number\<close>
  taking part, the trimmed line is marker, whitespace, email token, whitespace, an opening
  parenthesis, the group text and the closing parenthesis that ends the line; the group
  text is not empty and has no closing parenthesis; the parsed number is the group text
  trimmed. When the group text has no opening parenthesis either, it is the text between
  the last matching parentheses of the line.
\<close>

theorem number_suffix_text:
  assumes "re_match pattern (strip l) = Some m" and "group m ''number'' = Some X"
  shows "\<exists>st ws1 em ws2.
           strip l = ''* ['' @ [st] @ '']'' @ ws1 @ em @ ws2 @ ''('' @ X @ '')''
         \<and> ws1 \<noteq> [] \<and> (\<forall>c\<in>set ws1. is_space c)
         \<and> em \<noteq> [] \<and> (\<forall>c\<in>set em. \<not> is_space c)
         \<and> ws2 \<noteq> [] \<and> (\<forall>c\<in>set ws2. is_space c)
         \<and> X \<noteq> [] \<and> CHR '')'' \<notin> set X
         \<and> parse_line l = Some (em, seed_status [st], strip X)
         \<and> (CHR ''('' \<notin> set X \<longrightarrow> last_parenthesized (strip l) = Some X)"
proof -
  from pattern_stripped[OF assms(1)] obtain st ws1 em where
    ws1: "ws1 \<noteq> []" "\<forall>c\<in>set ws1. is_space c" and
    em: "em \<noteq> []" "\<forall>c\<in>set em. \<not> is_space c" and
    alt: "strip l = ''* ['' @ [st] @ '']'' @ ws1 @ em
                \<and> m = [(''email'', em), (''state'', [st])]
              \<or> (\<exists>ws2 Y. ws2 \<noteq> [] \<and> (\<forall>c\<in>set ws2. is_space c) \<and> Y \<noteq> []
                    \<and> CHR '')'' \<notin> set Y
                    \<and> strip l = ''* ['' @ [st] @ '']'' @ ws1 @ em @ ws2 @ ''('' @ Y @ '')''
                    \<and> m = [(''number'', Y), (''email'', em), (''state'', [st])])"
    by blast
  from alt assms(2) obtain ws2 Y where
    ws2: "ws2 \<noteq> []" "\<forall>c\<in>set ws2. is_space c" and
    Y: "Y \<noteq> []" "CHR '')'' \<notin> set Y" and
    L: "strip l = ''* ['' @ [st] @ '']'' @ ws1 @ em @ ws2 @ ''('' @ Y @ '')''" and
    m: "m = [(''number'', Y), (''email'', em), (''state'', [st])]"
    by (auto simp: group_def)
  from m assms(2) have YX: "Y = X" by (simp add: group_def)
  have ne: "strip l \<noteq> []" using L by simp
  have p: "parse_line l = Some (em, seed_status [st], strip X)"
    using ne assms(1) m YX strip_nonspace[OF em]
    by (simp add: parse_line_def Let_def group_def or_empty_def)
  have lp: "CHR ''('' \<notin> set X \<longrightarrow> last_parenthesized (strip l) = Some X"
  proof
    assume "CHR ''('' \<notin> set X"
    with Y(2) YX
    have "last_parenthesized ((''* ['' @ [st] @ '']'' @ ws1 @ em @ ws2) @ ''('' @ X @ '')'') = Some X"
      by (intro last_parenthesized_plain) simp_all
    with L YX show "last_parenthesized (strip l) = Some X" by simp
  qed
  from L ws1 em ws2 Y p lp YX show ?thesis by blast
qed

theorem number_suffix_text_witness:
  "re_match pattern (strip ''* [x] a(1) (2)'') = Some [(''number'', ''2''), (''email'', ''a(1)''), (''state'', ''x'')]
   \<and> group [(''number'', ''2''), (''email'', ''a(1)''), (''state'', ''x'')] ''number'' = Some ''2''
   \<and> (\<exists>st ws1 em ws2.
           strip ''* [x] a(1) (2)'' = ''* ['' @ [st] @ '']'' @ ws1 @ em @ ws2 @ ''('' @ ''2'' @ '')''
         \<and> ws1 \<noteq> [] \<and> (\<forall>c\<in>set ws1. is_space c)
         \<and> em \<noteq> [] \<and> (\<forall>c\<in>set em. \<not> is_space c)
         \<and> ws2 \<noteq> [] \<and> (\<forall>c\<in>set ws2. is_space c)
         \<and> ''2'' \<noteq> [] \<and> CHR '')'' \<notin> set ''2''
         \<and> parse_line ''* [x] a(1) (2)'' = Some (em, seed_status [st], strip ''2'')
         \<and> (CHR ''('' \<notin> set ''2'' \<longrightarrow> last_parenthesized (strip ''* [x] a(1) (2)'') = Some ''2''))"
proof -
  have h1: "re_match pattern (strip ''* [x] a(1) (2)'') = Some [(''number'', ''2''), (''email'', ''a(1)''), (''state'', ''x'')]"
    by code_simp
  have h2: "group [(''number'', ''2''), (''email'', ''a(1)''), (''state'', ''x'')] ''number'' = Some ''2''"
    by code_simp
  from h1 h2 number_suffix_text[OF h1 h2] show ?thesis by blast
qed

theorem number_suffix_counterexample:
  "re_match pattern (strip ''* [x] a@x.com ((7)'')
     = Some [(''number'', ''(7''), (''email'', ''a@x.com''), (''state'', ''x'')]
   \<and> parse_line ''* [x] a@x.com ((7)'' = Some (''a@x.com'', ''used'', ''(7'')
   \<and> map_option strip (last_parenthesized ''* [x] a@x.com ((7)'') = Some ''7''"
  by code_simp

lemma parse_line_marker:
  assumes "parse_line l = Some (em, st_text, num)"
  shows "\<exists>st rest. strip l = ''* ['' @ [st] @ '']'' @ rest
      \<and> (st = CHR ''x'' \<and> st_text = ''used'' \<or> st = CHR ''o'' \<and> st_text = ''using''
         \<or> st = CHR ''-'' \<and> st_text = ''leftover'' \<or> st = CHR '' '' \<and> st_text = ''unused'')"
proof -
  from assms have ne: "strip l \<noteq> []"
    by (simp add: parse_line_def Let_def split: if_splits)
  with assms obtain m where m: "re_match pattern (strip l) = Some m"
    and st: "st_text = seed_status (or_empty (group m ''state''))"
    by (simp add: parse_line_def Let_def split: option.splits)
  from pattern_stripped[OF m] obtain st ws1 em' where
    s: "st \<in> set ''xo- ''" and
    alt: "strip l = ''* ['' @ [st] @ '']'' @ ws1 @ em'
                \<and> m = [(''email'', em'), (''state'', [st])]
              \<or> (\<exists>ws2 X. ws2 \<noteq> [] \<and> (\<forall>c\<in>set ws2. is_space c) \<and> X \<noteq> []
                    \<and> CHR '')'' \<notin> set X
                    \<and> strip l = ''* ['' @ [st] @ '']'' @ ws1 @ em' @ ws2 @ ''('' @ X @ '')''
                    \<and> m = [(''number'', X), (''email'', em'), (''state'', [st])])"
    by blast
  from alt have g: "group m ''state'' = Some [st]"
    by (auto simp: group_def)
  from alt obtain rest where r: "strip l = ''* ['' @ [st] @ '']'' @ rest"
    by blast
  from s have "st = CHR ''x'' \<or> st = CHR ''o'' \<or> st = CHR ''-'' \<or> st = CHR '' ''"
    by simp
  then have "st = CHR ''x'' \<and> st_text = ''used'' \<or> st = CHR ''o'' \<and> st_text = ''using''
         \<or> st = CHR ''-'' \<and> st_text = ''leftover'' \<or> st = CHR '' '' \<and> st_text = ''unused''"
    unfolding st g by (auto simp: or_empty_def seed_status_def SEED_STATUS_def)
  with r show ?thesis by blast
qed

text \<open>
  C2. The document of the four lines \<^verbatim>\<open>* [x] a@x.com (7)\<close>, \<^verbatim>\<open>* [o] b@x.com\<close>,
  \<^verbatim>\<open>* [ ] c@x.com\<close>, \<^verbatim>\<open>* [-] d@x.com\<close> parses to the four rows
  (a@x.com, used, 7), (b@x.com, using, empty), (c@x.com, unused, empty),
  (d@x.com, leftover, empty), in that order. For every text, the rows are the rows of its
  recognized lines in document order, and the status of a row is given by the marker of its
  line: \<^verbatim>\<open>x\<close> used, \<^verbatim>\<open>o\<close> using, \<^verbatim>\<open>-\<close> leftover, space unused.
\<close>

theorem parse_seed_rows:
  "parse_seed (''* [x] a@x.com (7)'' @ [CHR 0x0A] @ ''* [o] b@x.com'' @ [CHR 0x0A]
        @ ''* [ ] c@x.com'' @ [CHR 0x0A] @ ''* [-] d@x.com'')
     = [(''a@x.com'', ''used'', ''7''), (''b@x.com'', ''using'', []),
        (''c@x.com'', ''unused'', []), (''d@x.com'', ''leftover'', [])]
   \<and> parse_seed SEED_TEXT = List.map_filter parse_line (splitlines SEED_TEXT)
   \<and> (\<forall>l em st_text num. parse_line l = Some (em, st_text, num) \<longrightarrow>
        (\<exists>st rest. strip l = ''* ['' @ [st] @ '']'' @ rest
           \<and> (st = CHR ''x'' \<and> st_text = ''used'' \<or> st = CHR ''o'' \<and> st_text = ''using''
              \<or> st = CHR ''-'' \<and> st_text = ''leftover''
              \<or> st = CHR '' '' \<and> st_text = ''unused'')))"
proof -
  have ex: "parse_seed (''* [x] a@x.com (7)'' @ [CHR 0x0A] @ ''* [o] b@x.com'' @ [CHR 0x0A]
        @ ''* [ ] c@x.com'' @ [CHR 0x0A] @ ''* [-] d@x.com'')
     = [(''a@x.com'', ''used'', ''7''), (''b@x.com'', ''using'', []),
        (''c@x.com'', ''unused'', []), (''d@x.com'', ''leftover'', [])]"
    by code_simp
  have mf: "parse_seed SEED_TEXT = List.map_filter parse_line (splitlines SEED_TEXT)"
    by (simp add: parse_seed_def parse_lines_map_filter)
  from ex mf parse_line_marker show ?thesis by blast
qed

theorem parse_seed_rows_witness:
  "parse_line ''  * [-] d@x.com (12 b) '' = Some (''d@x.com'', ''leftover'', ''12 b'')
   \<and> (\<exists>st rest. strip ''  * [-] d@x.com (12 b) '' = ''* ['' @ [st] @ '']'' @ rest
           \<and> (st = CHR ''x'' \<and> ''leftover'' = ''used'' \<or> st = CHR ''o'' \<and> ''leftover'' = ''using''
              \<or> st = CHR ''-'' \<and> ''leftover'' = ''leftover''
              \<or> st = CHR '' '' \<and> ''leftover'' = ''unused''))"
proof -
  have h: "parse_line ''  * [-] d@x.com (12 b) '' = Some (''d@x.com'', ''leftover'', ''12 b'')"
    by code_simp
  note r = parse_seed_rows[THEN conjunct2, THEN conjunct2, rule_format, OF h]
  from h r show ?thesis by (rule conjI)
qed

section \<open>Lemmas on the store and the window\<close>

lemma on_item_changed_loading: "loading a \<Longrightarrow> on_item_changed a row column it = a"
  by (simp add: on_item_changed_def)

lemma show_row_loading:
  assumes "loading a" "row_index = length (table a)"
  shows "show_row a row_index e =
     a\<lparr>table := table a @
        [\<lparr>email_item = Some \<lparr>item_text = email e, item_data = Some (eid e), item_editable = False\<rparr>,
          status_box = Some \<lparr>combo_items = STATUSES,
             current_text = (if status e \<in> set STATUSES then status e else ''unused''),
             bound_id = eid e\<rparr>,
          number_item = Some \<lparr>item_text = or_empty (number e), item_data = Some (eid e),
             item_editable = True\<rparr>\<rparr>]\<rparr>"
  using assms
  by (simp add: show_row_def insert_row_def set_item_def set_cell_widget_def
      on_item_changed_def Let_def)

lemma show_rows_loading:
  "loading a \<Longrightarrow> row_index = length (table a) \<Longrightarrow>
     conn (show_rows a row_index es) = conn a \<and> loading (show_rows a row_index es)
     \<and> email_input (show_rows a row_index es) = email_input a
     \<and> status_input (show_rows a row_index es) = status_input a
     \<and> number_input (show_rows a row_index es) = number_input a
     \<and> map (\<lambda>r. case email_item r of None \<Rightarrow> None | Some it \<Rightarrow> item_data it)
          (table (show_rows a row_index es))
        = map (\<lambda>r. case email_item r of None \<Rightarrow> None | Some it \<Rightarrow> item_data it) (table a)
          @ map (\<lambda>e. Some (eid e)) es"
proof (induction es arbitrary: a row_index)
  case Nil
  then show ?case by simp
next
  case (Cons e es)
  let ?a = "show_row a row_index e"
  have l: "loading ?a" and n: "Suc row_index = length (table ?a)" and c: "conn ?a = conn a"
    using Cons.prems by (simp_all add: show_row_loading)
  from Cons.IH[OF l n] c Cons.prems show ?case
    by (simp add: show_row_loading)
qed

lemma load_rows_frame:
  "conn (load_rows a) = conn a \<and> \<not> loading (load_rows a)
   \<and> email_input (load_rows a) = email_input a
   \<and> status_input (load_rows a) = status_input a
   \<and> number_input (load_rows a) = number_input a
   \<and> map (\<lambda>r. case email_item r of None \<Rightarrow> None | Some it \<Rightarrow> item_data it)
        (table (load_rows a))
      = map (\<lambda>e. Some (eid e)) (select_ordered (conn a))"
  using show_rows_loading[of "a\<lparr>loading := True, table := []\<rparr>" 0 "select_ordered (conn a)"]
  by (simp add: load_rows_def Let_def)

lemma sql_delete_rows: "rows (sql_delete s i) = filter (\<lambda>e. eid e \<noteq> i) (rows s)"
  and sql_delete_seq: "seq (sql_delete s i) = seq s"
  by (simp_all add: sql_delete_def)

lemma delete_rows_filter:
  "rows (delete_rows a rs s) =
     filter (\<lambda>e. eid e \<notin> {i. \<exists>row\<in>set rs. row_id_for_row a row = Some i}) (rows s)
   \<and> seq (delete_rows a rs s) = seq s"
proof (induction rs arbitrary: s)
  case Nil
  then show ?case by simp
next
  case (Cons row rs)
  show ?case
  proof (cases "row_id_for_row a row")
    case None
    with Cons.IH[of s] show ?thesis by simp
  next
    case (Some i)
    have "filter (\<lambda>e. eid e \<notin> {j. \<exists>r\<in>set rs. row_id_for_row a r = Some j})
            (filter (\<lambda>e. eid e \<noteq> i) (rows s))
        = filter (\<lambda>e. eid e \<notin> {j. \<exists>r\<in>set (row # rs). row_id_for_row a r = Some j}) (rows s)"
      using Some by (auto intro: filter_cong)
    with Cons.IH[of "sql_delete s i"] Some show ?thesis
      by (simp add: sql_delete_rows sql_delete_seq)
  qed
qed

lemma select_ordered_sorted:
  "sorted_wrt (\<lambda>a b. STATUS_SORT_CLAUSE (status a) < STATUS_SORT_CLAUSE (status b)
       \<or> (STATUS_SORT_CLAUSE (status a) = STATUS_SORT_CLAUSE (status b) \<and> eid a \<le> eid b))
     (select_ordered s)"
proof -
  have "sorted (map (\<lambda>e. (STATUS_SORT_CLAUSE (status e), eid e)) (select_ordered s))"
    unfolding select_ordered_def by (rule sorted_sort_key)
  then have "sorted_wrt (\<lambda>a b. (STATUS_SORT_CLAUSE (status a), eid a)
       \<le> (STATUS_SORT_CLAUSE (status b), eid b)) (select_ordered s)"
    by (simp only: sorted_map)
  then show ?thesis
    by (rule sorted_wrt_mono_rel[rotated]) (auto simp: less_eq_prod_simp)
qed

lemma select_ordered_mset: "mset (select_ordered s) = mset (rows s)"
  by (simp add: select_ordered_def)

lemma STATUS_SORT_CLAUSE_values:
  "STATUS_SORT_CLAUSE ''using'' = 0" "STATUS_SORT_CLAUSE ''unused'' = 1"
  "STATUS_SORT_CLAUSE ''leftover'' = 2" "STATUS_SORT_CLAUSE ''used'' = 3"
  "st \<notin> set STATUSES \<Longrightarrow> STATUS_SORT_CLAUSE st = 4"
  by (simp_all add: STATUS_SORT_CLAUSE_def STATUS_SORT_def STATUSES_def enumerate_eq_zip upt_rec)

lemma or_none_strip: "or_none (strip x) \<noteq> Some []"
  by (simp add: or_none_def)



lemma add_email_row:
  assumes "add_email a = Inr (None, a')"
  shows "\<exists>i. next_rowid (conn a) = Inr i \<and> rows (conn a') = rows (conn a) @
     [\<lparr>eid = i, email = strip (email_input a), status = status_input a,
       number = or_none (strip (number_input a))\<rparr>]"
proof -
  from assms obtain s where
    i: "sql_insert (conn a) (strip (email_input a), status_input a,
          or_none (strip (number_input a))) = Inr s"
    and a': "a' = load_rows (a\<lparr>conn := s, email_input := [], number_input := []\<rparr>)"
    by (auto simp: add_email_def Let_def split: if_splits sum.splits error.splits)
  from a' have c: "conn a' = s" by (simp add: load_rows_frame)
  from i obtain k where k: "next_rowid (conn a) = Inr k"
    by (auto simp: sql_insert_def split: sum.splits)
  with i have "rows s = rows (conn a) @
     [\<lparr>eid = k, email = strip (email_input a), status = status_input a,
       number = or_none (strip (number_input a))\<rparr>]"
    by (auto simp: sql_insert_def split: if_splits)
  with c k show ?thesis by simp
qed

lemma on_item_changed_row:
  "e \<in> set (rows (conn (on_item_changed a row column it))) \<Longrightarrow>
     e \<in> set (rows (conn a)) \<or> number e = or_none (strip (item_text it))"
  by (auto simp: on_item_changed_def sql_update_number_def Let_def split: if_splits option.splits)

section \<open>Properties of the store and the window\<close>

text \<open>
  C1. The rows that \<^verbatim>\<open>_load_rows\<close> fetches are the rows of the table, sorted by
  the rank of the status (using 0, unused 1, leftover 2, used 3, any other status 4) and,
  within a rank, by id ascending; the table of the window shows them in that order. Rows
  inserted with the statuses used, unused, using, leftover, in that order, are listed as
  using, unused, leftover, used.
\<close>

theorem listing_order:
  "sorted_wrt (\<lambda>a b. STATUS_SORT_CLAUSE (status a) < STATUS_SORT_CLAUSE (status b)
       \<or> (STATUS_SORT_CLAUSE (status a) = STATUS_SORT_CLAUSE (status b) \<and> eid a \<le> eid b))
     (select_ordered s)
   \<and> mset (select_ordered s) = mset (rows s)
   \<and> STATUS_SORT_CLAUSE ''using'' = 0 \<and> STATUS_SORT_CLAUSE ''unused'' = 1
   \<and> STATUS_SORT_CLAUSE ''leftover'' = 2 \<and> STATUS_SORT_CLAUSE ''used'' = 3
   \<and> (\<forall>st. st \<notin> set STATUSES \<longrightarrow> STATUS_SORT_CLAUSE st = 4)
   \<and> map (\<lambda>r. case email_item r of None \<Rightarrow> None | Some it \<Rightarrow> item_data it) (table (load_rows a))
       = map (\<lambda>e. Some (eid e)) (select_ordered (conn a))
   \<and> (\<forall>s'. executemany (init_db None) [(e1, ''used'', n1), (e2, ''unused'', n2),
             (e3, ''using'', n3), (e4, ''leftover'', n4)] = Inr s'
         \<longrightarrow> map status (select_ordered s') = [''using'', ''unused'', ''leftover'', ''used''])"
proof -
  have ex: "\<forall>s'. executemany (init_db None) [(e1, ''used'', n1), (e2, ''unused'', n2),
             (e3, ''using'', n3), (e4, ''leftover'', n4)] = Inr s'
         \<longrightarrow> map status (select_ordered s') = [''using'', ''unused'', ''leftover'', ''used'']"
    by (auto simp: init_db_def sql_insert_def next_rowid_def MAX_ROWID_def Let_def
        select_ordered_def STATUS_SORT_CLAUSE_values split: if_splits)
  show ?thesis
    using select_ordered_sorted[of s] ex
    by (simp add: select_ordered_mset STATUS_SORT_CLAUSE_values load_rows_frame)
qed

theorem listing_order_witness:
  "executemany (init_db None) [(''a@x.com'', ''used'', None), (''b@x.com'', ''unused'', None),
       (''c@x.com'', ''using'', Some ''7''), (''d@x.com'', ''leftover'', None)]
     = Inr \<lparr>rows = [\<lparr>eid = 1, email = ''a@x.com'', status = ''used'', number = None\<rparr>,
                     \<lparr>eid = 2, email = ''b@x.com'', status = ''unused'', number = None\<rparr>,
                     \<lparr>eid = 3, email = ''c@x.com'', status = ''using'', number = Some ''7''\<rparr>,
                     \<lparr>eid = 4, email = ''d@x.com'', status = ''leftover'', number = None\<rparr>],
            seq = 4\<rparr>
   \<and> map status (select_ordered
         \<lparr>rows = [\<lparr>eid = 1, email = ''a@x.com'', status = ''used'', number = None\<rparr>,
                  \<lparr>eid = 2, email = ''b@x.com'', status = ''unused'', number = None\<rparr>,
                  \<lparr>eid = 3, email = ''c@x.com'', status = ''using'', number = Some ''7''\<rparr>,
                  \<lparr>eid = 4, email = ''d@x.com'', status = ''leftover'', number = None\<rparr>],
          seq = 4\<rparr>)
       = [''using'', ''unused'', ''leftover'', ''used'']
   \<and> STATUS_SORT_CLAUSE ''archived'' = 4"
proof -
  have h1: "executemany (init_db None) [(''a@x.com'', ''used'', None), (''b@x.com'', ''unused'', None),
       (''c@x.com'', ''using'', Some ''7''), (''d@x.com'', ''leftover'', None)]
     = Inr \<lparr>rows = [\<lparr>eid = 1, email = ''a@x.com'', status = ''used'', number = None\<rparr>,
                     \<lparr>eid = 2, email = ''b@x.com'', status = ''unused'', number = None\<rparr>,
                     \<lparr>eid = 3, email = ''c@x.com'', status = ''using'', number = Some ''7''\<rparr>,
                     \<lparr>eid = 4, email = ''d@x.com'', status = ''leftover'', number = None\<rparr>],
            seq = 4\<rparr>"
    by code_simp
  have h2: "''archived'' \<notin> set STATUSES" by (simp add: STATUSES_def)
  from listing_order[of _ _ "''a@x.com''" None "''b@x.com''" None "''c@x.com''" "Some ''7''"
      "''d@x.com''" None] h1 h2
  show ?thesis by blast
qed




text \<open>
  C4, at the input where the code departs from it. On an empty store the seed line
  \<^verbatim>\<open>* [o] b@x.com\<close>, which has no number, and the seed line
  \<^verbatim>\<open>* [x] a@x.com ( )\<close>, whose number is blank, are stored with the empty text as
  their number, not with NULL. The lemmas \<open>add_email_row\<close> and
  \<open>on_item_changed_row\<close> with \<open>or_none_strip\<close> show that \<^verbatim>\<open>_add_email\<close> and
  \<^verbatim>\<open>_on_item_changed\<close> store NULL in that case.
\<close>

theorem seed_number_empty_text:
  "ensure_seed_data ''* [o] b@x.com'' (init_db None)
     = Inr \<lparr>rows = [\<lparr>eid = 1, email = ''b@x.com'', status = ''using'', number = Some []\<rparr>],
            seq = 1\<rparr>
   \<and> ensure_seed_data ''* [x] a@x.com ( )'' (init_db None)
     = Inr \<lparr>rows = [\<lparr>eid = 1, email = ''a@x.com'', status = ''used'', number = Some []\<rparr>],
            seq = 1\<rparr>"
  by code_simp

text \<open>
  C5. On a store that is not empty, \<^verbatim>\<open>_ensure_seed_data\<close> returns the store as it
  is, and the whole start (\<^verbatim>\<open>_init_db\<close>, \<^verbatim>\<open>_ensure_seed_data\<close>, \<^verbatim>\<open>_build_ui\<close>,
  \<^verbatim>\<open>_load_rows\<close>) succeeds and leaves the store as it was; starting again on the
  store it left, with any seed text, gives the same state again.
\<close>

theorem startup_nonempty_store:
  assumes "count_rows s \<noteq> 0"
  shows "ensure_seed_data SEED_TEXT s = Inr s
         \<and> startup SEED_TEXT (Some s) = Inr (load_rows (build_ui s))
         \<and> conn (load_rows (build_ui s)) = s
         \<and> startup SEED_TEXT' (Some (conn (load_rows (build_ui s)))) = Inr (load_rows (build_ui s))"
proof -
  have e: "\<And>T. ensure_seed_data T s = Inr s" using assms by (simp add: ensure_seed_data_def)
  have c: "conn (load_rows (build_ui s)) = s" by (simp add: load_rows_frame build_ui_def)
  show ?thesis by (simp add: e c startup_def init_db_def)
qed

theorem startup_nonempty_store_witness:
  "startup ''* [o] b@x.com'' (Some \<lparr>rows = [\<lparr>eid = 3, email = ''a@x.com'', status = ''used'', number = None\<rparr>], seq = 5\<rparr>)
     = Inr (load_rows (build_ui \<lparr>rows = [\<lparr>eid = 3, email = ''a@x.com'', status = ''used'', number = None\<rparr>], seq = 5\<rparr>))
   \<and> conn (load_rows (build_ui \<lparr>rows = [\<lparr>eid = 3, email = ''a@x.com'', status = ''used'', number = None\<rparr>], seq = 5\<rparr>))
     = \<lparr>rows = [\<lparr>eid = 3, email = ''a@x.com'', status = ''used'', number = None\<rparr>], seq = 5\<rparr>"
proof -
  have h: "count_rows \<lparr>rows = [\<lparr>eid = 3, email = ''a@x.com'', status = ''used'', number = None\<rparr>], seq = 5\<rparr> \<noteq> 0"
    by (simp add: count_rows_def)
  from startup_nonempty_store[OF h] show ?thesis by blast
qed

text \<open>
  C8. While \<^verbatim>\<open>_loading\<close> is set, \<^verbatim>\<open>_update_status\<close> and
  \<^verbatim>\<open>_on_item_changed\<close> return the state they were given, store included, for every
  event.
\<close>

theorem reloading_suppresses_writes:
  assumes "loading a"
  shows "update_status a row_id st = a \<and> on_item_changed a row column it = a"
  using assms by (simp add: update_status_def on_item_changed_def)

theorem reloading_suppresses_writes_witness:
  "update_status (build_ui \<lparr>rows = [\<lparr>eid = 1, email = ''a@x.com'', status = ''unused'', number = None\<rparr>], seq = 1\<rparr>
       \<lparr>loading := True\<rparr>) 1 ''used''
     = build_ui \<lparr>rows = [\<lparr>eid = 1, email = ''a@x.com'', status = ''unused'', number = None\<rparr>], seq = 1\<rparr>
       \<lparr>loading := True\<rparr>
   \<and> on_item_changed (build_ui \<lparr>rows = [\<lparr>eid = 1, email = ''a@x.com'', status = ''unused'', number = None\<rparr>], seq = 1\<rparr>
       \<lparr>loading := True\<rparr>) 0 2 \<lparr>item_text = ''7'', item_data = Some 1, item_editable = True\<rparr>
     = build_ui \<lparr>rows = [\<lparr>eid = 1, email = ''a@x.com'', status = ''unused'', number = None\<rparr>], seq = 1\<rparr>
       \<lparr>loading := True\<rparr>"
proof -
  have h: "loading (build_ui \<lparr>rows = [\<lparr>eid = 1, email = ''a@x.com'', status = ''unused'', number = None\<rparr>], seq = 1\<rparr>
       \<lparr>loading := True\<rparr>)" by simp
  from reloading_suppresses_writes[OF h] show ?thesis by blast
qed

text \<open>
  C9. After a confirmed \<^verbatim>\<open>_delete_selected\<close> the rows of the store are the old rows
  without those whose id the selected rows of the table resolve to, each kept row as it
  was, and the AUTOINCREMENT counter is unchanged. With nothing selected, or with an
  answer other than Yes, the state is unchanged. Among five entries shown in the order of
  their ids 2, 1, 5, 4, 3, selecting the rows that show ids 2 and 5 and confirming leaves
  the entries 1, 3 and 4 as they were.
\<close>

theorem delete_selected_frame:
  "rows (conn (delete_selected a sel Yes))
     = filter (\<lambda>e. eid e \<notin> {i. \<exists>row\<in>fst ` set sel. row_id_for_row a row = Some i}) (rows (conn a))
   \<and> seq (conn (delete_selected a sel Yes)) = seq (conn a)
   \<and> delete_selected a [] answer = a
   \<and> delete_selected a sel No = a
   \<and> map (\<lambda>r. case email_item r of None \<Rightarrow> None | Some it \<Rightarrow> item_data it)
        (table (load_rows (build_ui
          \<lparr>rows = [\<lparr>eid = 1, email = ''a@x.com'', status = ''unused'', number = None\<rparr>,
                   \<lparr>eid = 2, email = ''b@x.com'', status = ''using'', number = Some ''7''\<rparr>,
                   \<lparr>eid = 3, email = ''c@x.com'', status = ''used'', number = None\<rparr>,
                   \<lparr>eid = 4, email = ''d@x.com'', status = ''leftover'', number = None\<rparr>,
                   \<lparr>eid = 5, email = ''e@x.com'', status = ''unused'', number = None\<rparr>],
            seq = 5\<rparr>)))
       = [Some 2, Some 1, Some 5, Some 4, Some 3]
   \<and> rows (conn (delete_selected (load_rows (build_ui
          \<lparr>rows = [\<lparr>eid = 1, email = ''a@x.com'', status = ''unused'', number = None\<rparr>,
                   \<lparr>eid = 2, email = ''b@x.com'', status = ''using'', number = Some ''7''\<rparr>,
                   \<lparr>eid = 3, email = ''c@x.com'', status = ''used'', number = None\<rparr>,
                   \<lparr>eid = 4, email = ''d@x.com'', status = ''leftover'', number = None\<rparr>,
                   \<lparr>eid = 5, email = ''e@x.com'', status = ''unused'', number = None\<rparr>],
            seq = 5\<rparr>)) [(0, 0), (2, 2)] Yes))
       = [\<lparr>eid = 1, email = ''a@x.com'', status = ''unused'', number = None\<rparr>,
          \<lparr>eid = 3, email = ''c@x.com'', status = ''used'', number = None\<rparr>,
          \<lparr>eid = 4, email = ''d@x.com'', status = ''leftover'', number = None\<rparr>]"
proof -
  have g: "rows (conn (delete_selected a sel Yes))
     = filter (\<lambda>e. eid e \<notin> {i. \<exists>row\<in>fst ` set sel. row_id_for_row a row = Some i}) (rows (conn a))
   \<and> seq (conn (delete_selected a sel Yes)) = seq (conn a)"
  proof (cases "sel = []")
    case True
    then show ?thesis by (simp add: delete_selected_def)
  next
    case False
    then show ?thesis
      using delete_rows_filter[of a "rev (sort (remdups (map fst sel)))" "conn a"]
      by (simp add: delete_selected_def Let_def load_rows_frame)
  qed
  have n: "delete_selected a [] answer = a \<and> delete_selected a sel No = a"
    by (simp add: delete_selected_def)
  have t: "map (\<lambda>r. case email_item r of None \<Rightarrow> None | Some it \<Rightarrow> item_data it)
        (table (load_rows (build_ui
          \<lparr>rows = [\<lparr>eid = 1, email = ''a@x.com'', status = ''unused'', number = None\<rparr>,
                   \<lparr>eid = 2, email = ''b@x.com'', status = ''using'', number = Some ''7''\<rparr>,
                   \<lparr>eid = 3, email = ''c@x.com'', status = ''used'', number = None\<rparr>,
                   \<lparr>eid = 4, email = ''d@x.com'', status = ''leftover'', number = None\<rparr>,
                   \<lparr>eid = 5, email = ''e@x.com'', status = ''unused'', number = None\<rparr>],
            seq = 5\<rparr>)))
       = [Some 2, Some 1, Some 5, Some 4, Some 3]"
    by code_simp
  have e: "rows (conn (delete_selected (load_rows (build_ui
          \<lparr>rows = [\<lparr>eid = 1, email = ''a@x.com'', status = ''unused'', number = None\<rparr>,
                   \<lparr>eid = 2, email = ''b@x.com'', status = ''using'', number = Some ''7''\<rparr>,
                   \<lparr>eid = 3, email = ''c@x.com'', status = ''used'', number = None\<rparr>,
                   \<lparr>eid = 4, email = ''d@x.com'', status = ''leftover'', number = None\<rparr>,
                   \<lparr>eid = 5, email = ''e@x.com'', status = ''unused'', number = None\<rparr>],
            seq = 5\<rparr>)) [(0, 0), (2, 2)] Yes))
       = [\<lparr>eid = 1, email = ''a@x.com'', status = ''unused'', number = None\<rparr>,
          \<lparr>eid = 3, email = ''c@x.com'', status = ''used'', number = None\<rparr>,
          \<lparr>eid = 4, email = ''d@x.com'', status = ''leftover'', number = None\<rparr>]"
    by code_simp
  from g n t e show ?thesis by (intro conjI) simp_all
qed

theorem delete_selected_frame_witness:
  "rows (conn (delete_selected
       (build_ui \<lparr>rows = [\<lparr>eid = 1, email = ''a@x.com'', status = ''unused'', number = None\<rparr>,
                          \<lparr>eid = 2, email = ''b@x.com'', status = ''using'', number = None\<rparr>],
                  seq = 2\<rparr>
         \<lparr>table := [\<lparr>email_item = Some \<lparr>item_text = ''b@x.com'', item_data = Some 2, item_editable = False\<rparr>,
                      status_box = None, number_item = None\<rparr>]\<rparr>)
       [(0, 0)] Yes))
     = [\<lparr>eid = 1, email = ''a@x.com'', status = ''unused'', number = None\<rparr>]"
proof -
  have f: "filter (\<lambda>e. eid e \<notin> {i. \<exists>row\<in>fst ` set [(0::nat, 0::nat)]. row_id_for_row
       (build_ui \<lparr>rows = [\<lparr>eid = 1, email = ''a@x.com'', status = ''unused'', number = None\<rparr>,
                          \<lparr>eid = 2, email = ''b@x.com'', status = ''using'', number = None\<rparr>],
                  seq = 2\<rparr>
         \<lparr>table := [\<lparr>email_item = Some \<lparr>item_text = ''b@x.com'', item_data = Some 2, item_editable = False\<rparr>,
                      status_box = None, number_item = None\<rparr>]\<rparr>) row = Some i})
      (rows (conn (build_ui \<lparr>rows = [\<lparr>eid = 1, email = ''a@x.com'', status = ''unused'', number = None\<rparr>,
                          \<lparr>eid = 2, email = ''b@x.com'', status = ''using'', number = None\<rparr>],
                  seq = 2\<rparr>
         \<lparr>table := [\<lparr>email_item = Some \<lparr>item_text = ''b@x.com'', item_data = Some 2, item_editable = False\<rparr>,
                      status_box = None, number_item = None\<rparr>]\<rparr>)))
     = [\<lparr>eid = 1, email = ''a@x.com'', status = ''unused'', number = None\<rparr>]"
    by (simp add: build_ui_def row_id_for_row_def table_item_def)
  note r = delete_selected_frame[THEN conjunct1]
  show ?thesis unfolding r by (rule f)
qed

text \<open>
  C10. \<^verbatim>\<open>_update_status\<close> with a status outside \<^verbatim>\<open>STATUSES\<close> returns the state
  it was given, whether loading or not. Every row of the store after
  \<^verbatim>\<open>_update_status\<close> is a row of the store before it, or has the new status, which
  then is a member of \<^verbatim>\<open>STATUSES\<close>.
\<close>

theorem status_change_rejects_unknown:
  "(st \<notin> set STATUSES \<longrightarrow> update_status a row_id st = a)
   \<and> (\<forall>e\<in>set (rows (conn (update_status a row_id st))).
        e \<in> set (rows (conn a)) \<or> (status e = st \<and> st \<in> set STATUSES))"
  by (auto simp: update_status_def sql_update_status_def)

theorem status_change_rejects_unknown_witness:
  "update_status (build_ui \<lparr>rows = [\<lparr>eid = 1, email = ''a@x.com'', status = ''unused'', number = None\<rparr>], seq = 1\<rparr>)
       1 ''archived''
     = build_ui \<lparr>rows = [\<lparr>eid = 1, email = ''a@x.com'', status = ''unused'', number = None\<rparr>], seq = 1\<rparr>"
proof -
  have h: "''archived'' \<notin> set STATUSES" by (simp add: STATUSES_def)
  from status_change_rejects_unknown[of "''archived''"] h show ?thesis by blast
qed

end
